theory Spec2Isabelle
  imports Main
begin

section \<open>Data model of the editing session (src/open-scd.ts)\<close>

text \<open>
  An \<open>EditV2\<close> of the XML library is either a single edit object (insert, remove,
  set attributes, ...) or an array of \<open>EditV2\<close>. The session code only ever asks
  one question of an edit, \<open>instanceof Array\<close>, so the single edit objects are kept
  abstract (type \<open>'a\<close>; they hold references to nodes) and only the array shape is
  a constructor of its own.
\<close>

datatype 'a editV2 = Atomic 'a | Complex "'a editV2 list"

text \<open>\<open>type LogEntry = { undo: EditV2; redo: EditV2; title?: string }\<close>;
  an absent or \<open>undefined\<close> title is \<open>None\<close>.\<close>

record 'a logEntry =
  undo :: "'a editV2"
  redo :: "'a editV2"
  title :: "string option"

text \<open>The detail of an \<open>EditEventV2\<close>: \<open>{ edit, title?, squash? }\<close>.\<close>

datatype 'a editDetailV2 = EditDetailV2 "'a editV2" "string option" "bool option"

text \<open>The only exception the modelled code can raise itself: reading a property of
  \<open>undefined\<close>, or the \<open>URL\<close> constructor rejecting its argument.\<close>

datatype error = TypeError

text \<open>\<open>type Plugin\<close> of src/foundation/plugin-event.ts.\<close>

record plugin =
  name :: string
  translations_by_locale :: "(string \<times> string) list option"
  src :: string
  icon :: string
  requireDoc :: "bool option"
  active :: "bool option"

text \<open>An \<open>XMLDocument\<close> value is a reference to a tree; the contents of all trees
  are the component \<open>trees\<close> of the session state, of an abstract type \<open>'d\<close>
  that only the library's \<open>handleEdit\<close> reads and writes.\<close>

type_synonym xmlDocument = nat

text \<open>\<open>docs: Record<string, XMLDocument> = {}\<close> is a plain object, so a property
  read or write on it that finds no own key goes on to its prototype. The object is its
  own keys, which hold documents, and its prototype: \<open>Object.prototype\<close> as created,
  or a document once one has been assigned to \<open>__proto__\<close>.\<close>

datatype proto = ObjectPrototype | DocumentPrototype xmlDocument

record docsObject =
  ownKeys :: "string \<rightharpoonup> xmlDocument"
  prototype :: proto

text \<open>What a property read on \<open>docs\<close> can yield: \<open>undefined\<close>, a document held
  under an own key, or the inherited member of the given name (a function of
  \<open>Object.prototype\<close>, for instance).\<close>

datatype jsValue = Undefined | Document xmlDocument | Inherited string

text \<open>What an assignment to a name that is not an own key can do, depending on what
  the prototype chain holds under the name: create the own key, replace the prototype
  (the \<open>__proto__\<close> setter), nothing (a lenient setter), or raise (a setter that
  rejects the receiver, or a member without setter or not writable, the code being
  strict).\<close>

datatype setOutcome = CreatesKey | ReplacesPrototype | NoChange | Raises error

text \<open>The fields of class \<open>OpenSCD\<close> that the edit history, the document registry
  and the plugin registry use.\<close>

record ('a, 'd) openSCD =
  history :: "'a logEntry list"
  docVersion :: int
  editCount :: int
  docs :: docsObject
  docName :: string
  loadedPlugins :: "string \<rightharpoonup> plugin"
  trees :: 'd

text \<open>What lives outside the element: the module-level map \<open>pluginTags\<close>, the
  browser's \<open>customElements\<close> registry (the tag names defined so far), and the
  dynamic imports started so far, each with the tag its module will be defined under.\<close>

record globals =
  pluginTags :: "string \<rightharpoonup> string"
  customElements :: "string set"
  startedImports :: "(string \<times> string) list"

text \<open>The field initialisers of the class and of the module.\<close>

definition initial :: "'d \<Rightarrow> ('a, 'd) openSCD" where
  "initial t = \<lparr> history = [], docVersion = 0, editCount = 0, docs = \<lparr>ownKeys = Map.empty, prototype = ObjectPrototype\<rparr>,
     docName = [], loadedPlugins = Map.empty, trees = t \<rparr>"

definition initialGlobals :: globals where
  "initialGlobals = \<lparr> pluginTags = Map.empty, customElements = {}, startedImports = [] \<rparr>"

section \<open>JavaScript primitives used by the code\<close>

text \<open>\<open>xs[i]\<close>: \<open>undefined\<close> (here \<open>None\<close>) outside of the array.\<close>

definition at :: "'a list \<Rightarrow> int \<Rightarrow> 'a option" where
  "at xs i = (if 0 \<le> i \<and> i < int (length xs) then Some (xs ! nat i) else None)"

text \<open>\<open>xs.splice(start)\<close> with one argument removes everything from \<open>start\<close> on;
  a negative \<open>start\<close> counts from the end, and the result is clamped to the array.
  The value is the array that remains (named \<open>splice_js\<close>: \<open>splice\<close> is a list function of HOL).\<close>

definition splice_js :: "'a list \<Rightarrow> int \<Rightarrow> 'a list" where
  "splice_js xs start =
     (let len = int (length xs);
          k = (if start < 0 then max (len + start) 0 else min start len)
      in take (nat k) xs)"

text \<open>Truthiness of a value of type \<open>string | undefined\<close>, and \<open>a || b\<close> on
  such values.\<close>

definition truthy :: "string option \<Rightarrow> bool" where
  "truthy t = (case t of None \<Rightarrow> False | Some x \<Rightarrow> x \<noteq> [])"

definition or_else :: "string option \<Rightarrow> string option \<Rightarrow> string option" where
  "or_else a b = (if truthy a then a else b)"

section \<open>Document registry\<close>

text \<open>The string-named members that every plain object inherits from
  \<open>Object.prototype\<close>. All are writable methods, except \<open>__proto__\<close>, which is a
  getter and setter for the prototype of the receiver.\<close>

definition objectPrototypeNames :: "string list" where
  "objectPrototypeNames =
     [''constructor'', ''__defineGetter__'', ''__defineSetter__'', ''hasOwnProperty'',
      ''__lookupGetter__'', ''__lookupSetter__'', ''isPrototypeOf'', ''propertyIsEnumerable'',
      ''toString'', ''valueOf'', ''__proto__'', ''toLocaleString'']"

text \<open>\<open>obj[name]\<close> on the \<open>docs\<close> object: the own key if there is one; otherwise
  the member inherited under the name, \<open>undefined\<close> if there is none. When the
  prototype is a document, what the chain of the document yields for the receiver
  \<open>docs\<close> is a matter of the browser and is the parameter \<open>inheritedGet\<close>: an
  accessor of the document interfaces raises a \<open>TypeError\<close> on a receiver that is not
  a document.\<close>

definition getProperty ::
  "(xmlDocument \<Rightarrow> string \<Rightarrow> error + jsValue) \<Rightarrow> docsObject \<Rightarrow> string \<Rightarrow> error + jsValue" where
  "getProperty inheritedGet obj n =
     (case ownKeys obj n of
        Some d \<Rightarrow> Inr (Document d)
      | None \<Rightarrow>
          (case prototype obj of
             ObjectPrototype \<Rightarrow>
               Inr (if n \<in> set objectPrototypeNames then Inherited n else Undefined)
           | DocumentPrototype x \<Rightarrow> inheritedGet x n))"

text \<open>\<open>obj[name] = d\<close> on the \<open>docs\<close> object: an own key is overwritten. Without
  own key and with \<open>Object.prototype\<close> as prototype, the name \<open>__proto__\<close> reaches
  the setter, which makes the document the prototype and creates no key; every other
  name creates the own key, the inherited methods being writable. With a document as
  prototype the outcome is the parameter \<open>inheritedSet\<close>.\<close>

definition setProperty ::
  "(xmlDocument \<Rightarrow> string \<Rightarrow> setOutcome) \<Rightarrow> docsObject \<Rightarrow> string \<Rightarrow> xmlDocument
    \<Rightarrow> error option \<times> docsObject" where
  "setProperty inheritedSet obj n d =
     (case ownKeys obj n of
        Some _ \<Rightarrow> (None, obj\<lparr>ownKeys := (ownKeys obj)(n \<mapsto> d)\<rparr>)
      | None \<Rightarrow>
          (case (case prototype obj of
                   ObjectPrototype \<Rightarrow> if n = ''__proto__'' then ReplacesPrototype else CreatesKey
                 | DocumentPrototype x \<Rightarrow> inheritedSet x n) of
             CreatesKey \<Rightarrow> (None, obj\<lparr>ownKeys := (ownKeys obj)(n \<mapsto> d)\<rparr>)
           | ReplacesPrototype \<Rightarrow> (None, obj\<lparr>prototype := DocumentPrototype d\<rparr>)
           | NoChange \<Rightarrow> (None, obj)
           | Raises e \<Rightarrow> (Some e, obj)))"

text \<open>\<open>get doc(): XMLDocument { return this.docs[this.docName]; }\<close>: the bare
  property read, \<open>Inl\<close> when it raises.\<close>

definition doc ::
  "(xmlDocument \<Rightarrow> string \<Rightarrow> error + jsValue) \<Rightarrow> ('a, 'd) openSCD \<Rightarrow> error + jsValue" where
  "doc inheritedGet s = getProperty inheritedGet (docs s) (docName s)"

text \<open>\<open>handleOpenDoc\<close>: \<open>this.docName = docName; this.docs[this.docName] = doc\<close>.
  The result is the state left and the exception raised, if any; the name is set before
  the assignment that can raise.\<close>

definition handleOpenDoc ::
  "(xmlDocument \<Rightarrow> string \<Rightarrow> setOutcome) \<Rightarrow> string \<Rightarrow> xmlDocument \<Rightarrow> ('a, 'd) openSCD
    \<Rightarrow> error option \<times> ('a, 'd) openSCD" where
  "handleOpenDoc inheritedSet docName' doc' s =
     (let s1 = s\<lparr>docName := docName'\<rparr>;
          (e, obj) = setProperty inheritedSet (docs s1) (docName s1) doc'
      in (e, s1\<lparr>docs := obj\<rparr>))"

section \<open>Edit history\<close>

definition last_edit :: "('a, 'd) openSCD \<Rightarrow> int" where
  "last_edit s = editCount s - 1"

definition canUndo :: "('a, 'd) openSCD \<Rightarrow> bool" where
  "canUndo s = (last_edit s \<ge> 0)"

definition canRedo :: "('a, 'd) openSCD \<Rightarrow> bool" where
  "canRedo s = (editCount s < int (length (history s)))"

definition updateVersion :: "('a, 'd) openSCD \<Rightarrow> ('a, 'd) openSCD" where
  "updateVersion s = s\<lparr>docVersion := docVersion s + 1\<rparr>"

text \<open>Above are the getters \<open>last\<close> (named \<open>last_edit\<close>, since \<open>last\<close> is a
  list function of HOL), \<open>canUndo\<close> and \<open>canRedo\<close>, and \<open>updateVersion\<close>.

  The legacy \<open>oscd-edit\<close> handler follows. \<open>convertEdit\<close> and \<open>handleEdit\<close>
  are functions of the XML library and are parameters here: \<open>handleEdit\<close> applies an
  edit to the trees and returns the edit that undoes it. It is taken to return for
  every edit, which is the type the source imports it at.\<close>

definition handleEditEvent ::
  "('e \<Rightarrow> 'a editV2) \<Rightarrow> ('a editV2 \<Rightarrow> 'd \<Rightarrow> 'a editV2 \<times> 'd) \<Rightarrow> 'e
    \<Rightarrow> ('a, 'd) openSCD \<Rightarrow> ('a, 'd) openSCD" where
  "handleEditEvent convertEdit handleEdit edit s =
     (let editV2 = convertEdit edit;
          s1 = s\<lparr>history := splice_js (history s) (editCount s)\<rparr>;
          (undoEdit, t) = handleEdit editV2 (trees s1);
          s2 = s1\<lparr>trees := t\<rparr>;
          s3 = s2\<lparr>history := history s2 @ [\<lparr>undo = undoEdit, redo = editV2, title = None\<rparr>]\<rparr>;
          s4 = s3\<lparr>editCount := editCount s3 + 1\<rparr>
      in updateVersion s4)"

text \<open>\<open>squashUndo\<close> and \<open>squashRedo\<close>, with the four \<open>instanceof Array\<close>
  cases in the order of the source.\<close>

definition squashUndo :: "'a editV2 \<Rightarrow> ('a, 'd) openSCD \<Rightarrow> 'a editV2" where
  "squashUndo undoEdits s =
     (case at (history s) (int (length (history s)) - 1) of
        None \<Rightarrow> undoEdits
      | Some lastHistory \<Rightarrow>
          (case (undo lastHistory, undoEdits) of
             (Complex lastUndo, Complex us) \<Rightarrow> Complex (us @ lastUndo)
           | (Complex lastUndo, Atomic u) \<Rightarrow> Complex (Atomic u # lastUndo)
           | (Atomic l, Complex us) \<Rightarrow> Complex (us @ [Atomic l])
           | (Atomic l, Atomic u) \<Rightarrow> Complex [Atomic u, Atomic l]))"

definition squashRedo :: "'a editV2 \<Rightarrow> ('a, 'd) openSCD \<Rightarrow> 'a editV2" where
  "squashRedo edits s =
     (case at (history s) (int (length (history s)) - 1) of
        None \<Rightarrow> edits
      | Some lastHistory \<Rightarrow>
          (case (redo lastHistory, edits) of
             (Complex lastRedo, Complex es) \<Rightarrow> Complex (lastRedo @ es)
           | (Complex lastRedo, Atomic e) \<Rightarrow> Complex (lastRedo @ [Atomic e])
           | (Atomic l, Complex es) \<Rightarrow> Complex (Atomic l # es)
           | (Atomic l, Atomic e) \<Rightarrow> Complex [Atomic l, Atomic e]))"

text \<open>The \<open>oscd-edit-v2\<close> handler. \<open>!!event.detail.squash\<close> makes an absent flag
  false; \<open>this.history[this.history.length - 1]?.title\<close> is \<open>undefined\<close> on an
  empty history; \<open>pop\<close> on an empty array does nothing.\<close>

fun handleEditEventV2 ::
  "('a editV2 \<Rightarrow> 'd \<Rightarrow> 'a editV2 \<times> 'd) \<Rightarrow> 'a editDetailV2
    \<Rightarrow> ('a, 'd) openSCD \<Rightarrow> ('a, 'd) openSCD" where
  "handleEditEventV2 handleEdit (EditDetailV2 edit title' squash') s =
     (let squash = (case squash' of None \<Rightarrow> False | Some b \<Rightarrow> b);
          s1 = s\<lparr>history := splice_js (history s) (editCount s)\<rparr>;
          (undoEdit, t) = handleEdit edit (trees s1);
          s2 = s1\<lparr>trees := t\<rparr>;
          undo' = (if squash then squashUndo undoEdit s2 else undoEdit);
          redo' = (if squash then squashRedo edit s2 else edit);
          logTitle = or_else title'
            (case at (history s2) (int (length (history s2)) - 1) of
               None \<Rightarrow> None
             | Some lastHistory \<Rightarrow> title lastHistory);
          s3 = (if squash then s2\<lparr>history := butlast (history s2)\<rparr> else s2);
          s4 = s3\<lparr>history := history s3 @ [\<lparr>undo = undo', redo = redo', title = logTitle\<rparr>]\<rparr>;
          s5 = s4\<lparr>editCount := int (length (history s4))\<rparr>
      in updateVersion s5)"

text \<open>\<open>undo(n = 1)\<close> and \<open>redo(n = 1)\<close>, here \<open>undo_n\<close> and \<open>redo_n\<close>
  (\<open>undo\<close> and \<open>redo\<close> are the fields of a log entry). The result is the state the call
  leaves and the exception it ended with, if any: \<open>this.history[i].undo\<close> raises a
  \<open>TypeError\<close> when index \<open>i\<close> is outside of the array, and what was done before
  stays done. The count \<open>n\<close> is an integer.\<close>

function undo_n ::
  "('a editV2 \<Rightarrow> 'd \<Rightarrow> 'a editV2 \<times> 'd) \<Rightarrow> int \<Rightarrow> ('a, 'd) openSCD
    \<Rightarrow> error option \<times> ('a, 'd) openSCD" where
  "undo_n handleEdit n s =
     (if \<not> canUndo s \<or> n < 1 then (None, s)
      else (case at (history s) (last_edit s) of
              None \<Rightarrow> (Some TypeError, s)
            | Some entry \<Rightarrow>
                (let s1 = s\<lparr>trees := snd (handleEdit (undo entry) (trees s))\<rparr>;
                     s2 = s1\<lparr>editCount := editCount s1 - 1\<rparr>;
                     s3 = updateVersion s2
                 in if n > 1 then undo_n handleEdit (n - 1) s3 else (None, s3))))"
  by pat_completeness auto
termination
  by (relation "measure (\<lambda>(h, n, s). nat n)") auto

function redo_n ::
  "('a editV2 \<Rightarrow> 'd \<Rightarrow> 'a editV2 \<times> 'd) \<Rightarrow> int \<Rightarrow> ('a, 'd) openSCD
    \<Rightarrow> error option \<times> ('a, 'd) openSCD" where
  "redo_n handleEdit n s =
     (if \<not> canRedo s \<or> n < 1 then (None, s)
      else (case at (history s) (editCount s) of
              None \<Rightarrow> (Some TypeError, s)
            | Some entry \<Rightarrow>
                (let s1 = s\<lparr>trees := snd (handleEdit (redo entry) (trees s))\<rparr>;
                     s2 = s1\<lparr>editCount := editCount s1 + 1\<rparr>;
                     s3 = updateVersion s2
                 in if n > 1 then redo_n handleEdit (n - 1) s3 else (None, s3))))"
  by pat_completeness auto
termination
  by (relation "measure (\<lambda>(h, n, s). nat n)") auto

section \<open>Plugin registry\<close>

text \<open>\<open>pluginTag\<close>: the memo table is threaded through. \<open>cyrb64\<close> (of
  foundation.ts) is a parameter. After the \<open>has\<close>/\<open>set\<close> line the key is
  present, so \<open>pluginTags.get(uri)!\<close> is the stored string in both branches.\<close>

definition pluginTag ::
  "(string \<Rightarrow> string) \<Rightarrow> string \<Rightarrow> (string \<rightharpoonup> string) \<Rightarrow> string \<times> (string \<rightharpoonup> string)" where
  "pluginTag cyrb64 uri tags =
     (case tags uri of
        None \<Rightarrow> (let t = ''oscd-p'' @ cyrb64 uri in (t, tags(uri \<mapsto> t)))
      | Some t \<Rightarrow> (t, tags))"

text \<open>\<open>loadPlugin\<close>. \<open>newURL\<close> stands for
  \<open>new URL(plugin.src, window.location.href).toString()\<close>, which raises a
  \<open>TypeError\<close> (here \<open>None\<close>) on a string it cannot resolve. The \<open>import\<close> is
  only started here; the module is defined under the tag when it has loaded.\<close>

definition loadPlugin ::
  "(string \<Rightarrow> string) \<Rightarrow> (string \<Rightarrow> string option) \<Rightarrow> plugin
    \<Rightarrow> globals \<times> ('a, 'd) openSCD \<Rightarrow> error option \<times> globals \<times> ('a, 'd) openSCD" where
  "loadPlugin cyrb64 newURL p gs =
     (let (g, s) = gs;
          (tagName, tags) = pluginTag cyrb64 (src p) (pluginTags g);
          g1 = g\<lparr>pluginTags := tags\<rparr>
      in if loadedPlugins s tagName \<noteq> None then (None, g1, s)
         else
           (let s1 = s\<lparr>loadedPlugins := (loadedPlugins s)(tagName \<mapsto> p)\<rparr>
            in if tagName \<in> customElements g1 then (None, g1, s1)
               else (case newURL (src p) of
                       None \<Rightarrow> (Some TypeError, g1, s1)
                     | Some url \<Rightarrow>
                         (None, g1\<lparr>startedImports := startedImports g1 @ [(tagName, url)]\<rparr>, s1))))"

section \<open>A small applier for concrete instances\<close>

text \<open>Instances of the theorems below need some \<open>handleEdit\<close>. In this one the
  trees are a single integer, a single edit adds its number to it, an array of edits
  is applied from left to right, and the edit returned negates the numbers and
  reverses the arrays.\<close>

fun sampleSum :: "int editV2 \<Rightarrow> int" where
  "sampleSum (Atomic k) = k"
| "sampleSum (Complex es) = sum_list (map sampleSum es)"

fun sampleInverse :: "int editV2 \<Rightarrow> int editV2" where
  "sampleInverse (Atomic k) = Atomic (- k)"
| "sampleInverse (Complex es) = Complex (rev (map sampleInverse es))"

definition sampleHandleEdit :: "int editV2 \<Rightarrow> int \<Rightarrow> int editV2 \<times> int" where
  "sampleHandleEdit e t = (sampleInverse e, t + sampleSum e)"

text \<open>A session over this applier: two edits were appended, adding 3 and then 4.\<close>

definition sampleSession :: "(int, int) openSCD" where
  "sampleSession = (initial 7)
     \<lparr>history := [\<lparr>undo = Atomic (- 3), redo = Atomic 3, title = Some ''first''\<rparr>,
                  \<lparr>undo = Atomic (- 4), redo = Atomic 4, title = Some ''second''\<rparr>],
      docVersion := 2, editCount := 2\<rparr>"

text \<open>A plugin descriptor with the module locator \<open>plugin.js\<close>.\<close>

definition samplePlugin :: "string \<Rightarrow> plugin" where
  "samplePlugin n = \<lparr>name = n, translations_by_locale = None, src = ''plugin.js'',
     icon = ''edit'', requireDoc = None, active = Some True\<rparr>"

text \<open>A browser for the instances: through a document as prototype, reading the
  accessor \<open>URL\<close> raises, \<open>createElement\<close> is an inherited method and no other
  name is found; assigning to \<open>title\<close> raises, to \<open>__proto__\<close> replaces the
  prototype, and any other name creates a key.\<close>

definition sampleInheritedGet :: "xmlDocument \<Rightarrow> string \<Rightarrow> error + jsValue" where
  "sampleInheritedGet x n =
     (if n = ''URL'' then Inl TypeError
      else if n = ''createElement'' then Inr (Inherited n)
      else Inr Undefined)"

definition sampleInheritedSet :: "xmlDocument \<Rightarrow> string \<Rightarrow> setOutcome" where
  "sampleInheritedSet x n =
     (if n = ''title'' then Raises TypeError
      else if n = ''__proto__'' then ReplacesPrototype
      else CreatesKey)"

section \<open>Vocabulary of the properties\<close>

text \<open>The sequence of edits an \<open>EditV2\<close> stands for: the elements of an array,
  a single edit by itself. This is what \<open>...x\<close> or \<open>x\<close> contributes to an
  array literal in \<open>squashUndo\<close> and \<open>squashRedo\<close>.\<close>

fun subEdits :: "'a editV2 \<Rightarrow> 'a editV2 list" where
  "subEdits (Complex es) = es"
| "subEdits (Atomic a) = [Atomic a]"

text \<open>Applying stored edits one after the other, as \<open>undo\<close> and \<open>redo\<close> do:
  the edit that \<open>handleEdit\<close> returns is dropped.\<close>

definition applyAll ::
  "('a editV2 \<Rightarrow> 'd \<Rightarrow> 'a editV2 \<times> 'd) \<Rightarrow> 'a editV2 list \<Rightarrow> 'd \<Rightarrow> 'd" where
  "applyAll handleEdit es t = fold (\<lambda>e t'. snd (handleEdit e t')) es t"

text \<open>The cursor lies within the history.\<close>

definition cursorInRange :: "('a, 'd) openSCD \<Rightarrow> bool" where
  "cursorInRange s = (0 \<le> editCount s \<and> editCount s \<le> int (length (history s)))"

text \<open>A session is a sequence of calls of the four history operations. An exception
  ends the call that raised it, not the session: the next call finds the state as the
  failed call left it. \<open>run\<close> returns the exceptions raised and the final state.\<close>

datatype ('e, 'a) call =
  HandleEditEvent 'e
| HandleEditEventV2 "'a editDetailV2"
| Undo int
| Redo int

fun exec ::
  "('e \<Rightarrow> 'a editV2) \<Rightarrow> ('a editV2 \<Rightarrow> 'd \<Rightarrow> 'a editV2 \<times> 'd) \<Rightarrow> ('e, 'a) call
    \<Rightarrow> ('a, 'd) openSCD \<Rightarrow> error option \<times> ('a, 'd) openSCD" where
  "exec convertEdit handleEdit (HandleEditEvent e) s = (None, handleEditEvent convertEdit handleEdit e s)"
| "exec convertEdit handleEdit (HandleEditEventV2 d) s = (None, handleEditEventV2 handleEdit d s)"
| "exec convertEdit handleEdit (Undo n) s = undo_n handleEdit n s"
| "exec convertEdit handleEdit (Redo n) s = redo_n handleEdit n s"

fun run ::
  "('e \<Rightarrow> 'a editV2) \<Rightarrow> ('a editV2 \<Rightarrow> 'd \<Rightarrow> 'a editV2 \<times> 'd) \<Rightarrow> ('e, 'a) call list
    \<Rightarrow> ('a, 'd) openSCD \<Rightarrow> error list \<times> ('a, 'd) openSCD" where
  "run convertEdit handleEdit [] s = ([], s)"
| "run convertEdit handleEdit (c # cs) s =
     (let (e, s1) = exec convertEdit handleEdit c s;
          (es, s2) = run convertEdit handleEdit cs s1
      in (case e of None \<Rightarrow> es | Some x \<Rightarrow> x # es, s2))"

section \<open>Basic facts\<close>

declare undo_n.simps [simp del]
declare redo_n.simps [simp del]

lemma undo_n_stop: "\<not> canUndo s \<or> n < 1 \<Longrightarrow> undo_n handleEdit n s = (None, s)"
  by (subst undo_n.simps) simp

lemma redo_n_stop: "\<not> canRedo s \<or> n < 1 \<Longrightarrow> redo_n handleEdit n s = (None, s)"
  by (subst redo_n.simps) simp

lemma at_last: "xs \<noteq> [] \<Longrightarrow> at xs (int (length xs) - 1) = Some (last xs)"
  by (cases xs rule: rev_cases) (simp_all add: at_def nat_diff_distrib')

lemma at_snoc: "at (xs @ [x]) (int (length xs)) = Some x"
  by (simp add: at_def)

lemma splice_js_length: "splice_js xs (int (length xs)) = xs"
  by (simp add: splice_js_def)

lemma splice_js_take:
  "0 \<le> k \<Longrightarrow> k \<le> int (length xs) \<Longrightarrow> splice_js xs k = take (nat k) xs"
  by (simp add: splice_js_def Let_def)

lemma splice_js_zero: "splice_js xs 0 = []"
  by (simp add: splice_js_def)

lemma or_else_falsy: "\<not> truthy t \<Longrightarrow> or_else t x = x"
  by (simp add: or_else_def)

subsection \<open>The two squash functions as concatenations\<close>

lemma squashUndo_snoc:
  "history s = hs @ [e] \<Longrightarrow> squashUndo u s = Complex (subEdits u @ subEdits (undo e))"
  by (cases u; cases "undo e") (simp_all add: squashUndo_def at_snoc)

lemma squashRedo_snoc:
  "history s = hs @ [e] \<Longrightarrow> squashRedo r s = Complex (subEdits (redo e) @ subEdits r)"
  by (cases r; cases "redo e") (simp_all add: squashRedo_def at_snoc)

lemma squashUndo_Nil: "history s = [] \<Longrightarrow> squashUndo u s = u"
  by (simp add: squashUndo_def at_def)

lemma squashRedo_Nil: "history s = [] \<Longrightarrow> squashRedo r s = r"
  by (simp add: squashRedo_def at_def)

subsection \<open>The state after an append\<close>

lemma V2_plain:
  "sq \<noteq> Some True \<Longrightarrow> handleEditEventV2 h (EditDetailV2 e t sq) s =
    s\<lparr>history := splice_js (history s) (editCount s) @
         [\<lparr>undo = fst (h e (trees s)), redo = e,
           title = or_else t
             (case at (splice_js (history s) (editCount s))
                      (int (length (splice_js (history s) (editCount s))) - 1) of
                None \<Rightarrow> None | Some l \<Rightarrow> title l)\<rparr>],
      editCount := int (length (splice_js (history s) (editCount s))) + 1,
      docVersion := docVersion s + 1,
      trees := snd (h e (trees s))\<rparr>"
  by (cases sq) (auto simp add: Let_def updateVersion_def split: prod.splits)

lemma V2_squash:
  "handleEditEventV2 h (EditDetailV2 e t (Some True)) s =
    (let hs = splice_js (history s) (editCount s);
         s2 = s\<lparr>history := hs, trees := snd (h e (trees s))\<rparr>
     in s\<lparr>history := butlast hs @
           [\<lparr>undo = squashUndo (fst (h e (trees s))) s2, redo = squashRedo e s2,
             title = or_else t
               (case at hs (int (length hs) - 1) of None \<Rightarrow> None | Some l \<Rightarrow> title l)\<rparr>],
         editCount := int (length (butlast hs)) + 1,
         docVersion := docVersion s + 1,
         trees := snd (h e (trees s))\<rparr>)"
  by (auto simp add: Let_def updateVersion_def split: prod.splits)

lemma V2_editCount:
  "editCount (handleEditEventV2 h d s) = int (length (history (handleEditEventV2 h d s)))"
  by (cases d) (simp add: Let_def updateVersion_def split: prod.splits)

declare handleEditEventV2.simps [simp del]

lemma V2_squash_snoc:
  assumes "history s = hs @ [e]" and "editCount s = int (length (history s))"
  shows "handleEditEventV2 h (EditDetailV2 B t (Some True)) s =
    s\<lparr>history := hs @
         [\<lparr>undo = Complex (subEdits (fst (h B (trees s))) @ subEdits (undo e)),
           redo = Complex (subEdits (redo e) @ subEdits B),
           title = or_else t (title e)\<rparr>],
      editCount := int (length hs) + 1,
      docVersion := docVersion s + 1,
      trees := snd (h B (trees s))\<rparr>"
proof -
  have k: "splice_js (history s) (editCount s) = hs @ [e]"
    using assms by (simp add: splice_js_def)
  have a: "at (hs @ [e]) (int (length (hs @ [e])) - 1) = Some e"
    by (simp add: at_def)
  show ?thesis
    unfolding V2_squash Let_def k a
    by (simp add: squashUndo_snoc [where hs = hs and e = e]
        squashRedo_snoc [where hs = hs and e = e])
qed

subsection \<open>Unfolding \<open>undo\<close> and \<open>redo\<close> into their steps\<close>

lemma undo_n_unfold:
  assumes "1 \<le> editCount s" "editCount s \<le> int (length (history s))" "1 \<le> n"
  shows "undo_n h n s =
    (let s3 = s\<lparr>trees := snd (h (undo (history s ! nat (editCount s - 1))) (trees s)),
                 editCount := editCount s - 1, docVersion := docVersion s + 1\<rparr>
     in if n > 1 then undo_n h (n - 1) s3 else (None, s3))"
  using assms
  by (subst undo_n.simps) (simp add: at_def canUndo_def last_edit_def updateVersion_def Let_def)

lemma redo_n_unfold:
  assumes "0 \<le> editCount s" "editCount s < int (length (history s))" "1 \<le> n"
  shows "redo_n h n s =
    (let s3 = s\<lparr>trees := snd (h (redo (history s ! nat (editCount s))) (trees s)),
                 editCount := editCount s + 1, docVersion := docVersion s + 1\<rparr>
     in if n > 1 then redo_n h (n - 1) s3 else (None, s3))"
  using assms
  by (subst redo_n.simps) (simp add: at_def canRedo_def updateVersion_def Let_def)

lemma rev_take_Suc: "j < length xs \<Longrightarrow> rev (take (Suc j) xs) = xs ! j # rev (take j xs)"
  by (simp add: take_Suc_conv_app_nth)

lemma undo_n_steps_nat:
  "editCount s = int c \<Longrightarrow> c \<le> length (history s) \<Longrightarrow>
   undo_n h (int m) s =
     (None, s\<lparr>trees := applyAll h (map undo (take m (rev (take c (history s))))) (trees s),
              editCount := int (c - min m c),
              docVersion := docVersion s + int (min m c)\<rparr>)"
proof (induction m arbitrary: s c)
  case 0
  then show ?case by (simp add: undo_n_stop applyAll_def)
next
  case (Suc m)
  show ?case
  proof (cases c)
    case 0
    with Suc.prems show ?thesis
      by (simp add: undo_n_stop canUndo_def last_edit_def applyAll_def)
  next
    case (Suc c')
    define s3 where "s3 = s\<lparr>trees := snd (h (undo (history s ! c')) (trees s)),
                 editCount := int c', docVersion := docVersion s + 1\<rparr>"
    have u: "undo_n h (int (Suc m)) s = (if m > 0 then undo_n h (int m) s3 else (None, s3))"
      using Suc.prems Suc by (subst undo_n_unfold) (auto simp add: s3_def Let_def)
    have r: "rev (take c (history s)) = history s ! c' # rev (take c' (history s))"
      using Suc.prems Suc by (simp add: rev_take_Suc)
    have ih: "undo_n h (int m) s3 =
       (None, s3\<lparr>trees := applyAll h (map undo (take m (rev (take c' (history s3))))) (trees s3),
              editCount := int (c' - min m c'),
              docVersion := docVersion s3 + int (min m c')\<rparr>)"
      using Suc.prems Suc by (intro Suc.IH) (simp_all add: s3_def)
    show ?thesis
    proof (cases "m > 0")
      case True
      then show ?thesis
        unfolding u ih r using Suc
        by (simp add: s3_def applyAll_def)
    next
      case False
      then show ?thesis
        unfolding u r using Suc
        by (simp add: s3_def applyAll_def)
    qed
  qed
qed

lemma redo_n_steps_nat:
  "editCount s = int c \<Longrightarrow> c \<le> length (history s) \<Longrightarrow>
   redo_n h (int m) s =
     (None, s\<lparr>trees := applyAll h (map redo (take m (drop c (history s)))) (trees s),
              editCount := int (c + min m (length (history s) - c)),
              docVersion := docVersion s + int (min m (length (history s) - c))\<rparr>)"
proof (induction m arbitrary: s c)
  case 0
  then show ?case by (simp add: redo_n_stop applyAll_def)
next
  case (Suc m)
  show ?case
  proof (cases "c = length (history s)")
    case True
    with Suc.prems show ?thesis
      by (simp add: redo_n_stop canRedo_def applyAll_def)
  next
    case False
    then have lt: "c < length (history s)" using Suc.prems by simp
    define s3 where "s3 = s\<lparr>trees := snd (h (redo (history s ! c)) (trees s)),
                 editCount := editCount s + 1, docVersion := docVersion s + 1\<rparr>"
    have u: "redo_n h (int (Suc m)) s = (if m > 0 then redo_n h (int m) s3 else (None, s3))"
      using Suc.prems lt by (subst redo_n_unfold) (simp_all add: s3_def Let_def)
    have r: "drop c (history s) = history s ! c # drop (Suc c) (history s)"
      using lt by (simp add: Cons_nth_drop_Suc)
    have ih: "redo_n h (int m) s3 =
       (None, s3\<lparr>trees := applyAll h (map redo (take m (drop (Suc c) (history s3)))) (trees s3),
              editCount := int (Suc c + min m (length (history s3) - Suc c)),
              docVersion := docVersion s3 + int (min m (length (history s3) - Suc c))\<rparr>)"
      using Suc.prems lt by (intro Suc.IH) (simp_all add: s3_def)
    show ?thesis
    proof (cases "m > 0")
      case True
      then show ?thesis
        unfolding u ih r using Suc.prems lt
        by (simp add: s3_def applyAll_def min_def)
    next
      case False
      then show ?thesis
        unfolding u r using Suc.prems lt
        by (simp add: s3_def applyAll_def)
    qed
  qed
qed


lemma undo_n_closed:
  assumes "cursorInRange s"
  shows "undo_n h n s =
     (None, s\<lparr>trees := applyAll h (map undo (take (nat (min n (editCount s)))
                  (rev (take (nat (editCount s)) (history s))))) (trees s),
              editCount := editCount s - int (nat (min n (editCount s))),
              docVersion := docVersion s + int (nat (min n (editCount s)))\<rparr>)"
proof (cases "n < 1")
  case True
  then show ?thesis by (simp add: undo_n_stop applyAll_def)
next
  case False
  have c: "editCount s = int (nat (editCount s))" "nat (editCount s) \<le> length (history s)"
    using assms unfolding cursorInRange_def by linarith+
  have n: "n = int (nat n)" using False by simp
  have m: "nat (min n (editCount s)) = min (nat n) (nat (editCount s))"
    using False assms by (simp add: cursorInRange_def min_def)
  have t: "take (min (nat n) (nat (editCount s))) (rev (take (nat (editCount s)) (history s)))
         = take (nat n) (rev (take (nat (editCount s)) (history s)))"
    using c(2) by (simp add: min_def)
  have p: "0 \<le> editCount s" using assms by (simp add: cursorInRange_def)
  show ?thesis
    apply (subst n)
    apply (subst undo_n_steps_nat [OF c])
    using c(2) p by (simp add: m t)
qed

lemma redo_n_closed:
  assumes "cursorInRange s"
  shows "redo_n h n s =
     (None, s\<lparr>trees := applyAll h (map redo (take (nat (min n (int (length (history s)) - editCount s)))
                  (drop (nat (editCount s)) (history s)))) (trees s),
              editCount := editCount s + int (nat (min n (int (length (history s)) - editCount s))),
              docVersion := docVersion s + int (nat (min n (int (length (history s)) - editCount s)))\<rparr>)"
proof (cases "n < 1")
  case True
  then show ?thesis by (simp add: redo_n_stop applyAll_def)
next
  case False
  have c: "editCount s = int (nat (editCount s))" "nat (editCount s) \<le> length (history s)"
    using assms unfolding cursorInRange_def by linarith+
  have n: "n = int (nat n)" using False by simp
  have m: "nat (min n (int (length (history s)) - editCount s))
         = min (nat n) (length (history s) - nat (editCount s))"
    using False assms by (auto simp add: cursorInRange_def min_def)
  have t: "take (min (nat n) (length (history s) - nat (editCount s)))
             (drop (nat (editCount s)) (history s))
         = take (nat n) (drop (nat (editCount s)) (history s))"
    by (simp add: min_def)
  have p: "0 \<le> editCount s" using assms by (simp add: cursorInRange_def)
  show ?thesis
    apply (subst n)
    apply (subst redo_n_steps_nat [OF c])
    using c(2) p by (simp add: m t)
qed

subsection \<open>Preservation of the cursor invariant\<close>

lemma undo_n_inv: "cursorInRange s \<Longrightarrow> undo_n h n s = (e, s') \<Longrightarrow> e = None \<and> cursorInRange s' \<and> history s' = history s"
  by (auto simp add: undo_n_closed) (auto simp add: cursorInRange_def)

lemma redo_n_inv: "cursorInRange s \<Longrightarrow> redo_n h n s = (e, s') \<Longrightarrow> e = None \<and> cursorInRange s' \<and> history s' = history s"
  by (auto simp add: redo_n_closed) (auto simp add: cursorInRange_def)

lemma V2_inv: "cursorInRange (handleEditEventV2 h d s)"
  by (simp add: cursorInRange_def V2_editCount)

lemma V1_state:
  "handleEditEvent c h e s =
     s\<lparr>history := splice_js (history s) (editCount s) @
          [\<lparr>undo = fst (h (c e) (trees s)), redo = c e, title = None\<rparr>],
       editCount := editCount s + 1,
       docVersion := docVersion s + 1,
       trees := snd (h (c e) (trees s))\<rparr>"
  by (simp add: handleEditEvent_def Let_def updateVersion_def split: prod.splits)

lemma V1_inv: "cursorInRange s \<Longrightarrow> cursorInRange (handleEditEvent c h e s)"
  unfolding cursorInRange_def by (simp add: V1_state splice_js_take) linarith

lemma V1_editCount: "cursorInRange s \<Longrightarrow> editCount (handleEditEvent c h e s) = int (length (history (handleEditEvent c h e s)))"
  unfolding cursorInRange_def by (simp add: V1_state splice_js_take) linarith

lemma exec_inv: "cursorInRange s \<Longrightarrow> exec c h x s = (e, s') \<Longrightarrow> e = None \<and> cursorInRange s'"
  by (cases x) (auto simp add: V1_inv V2_inv dest: undo_n_inv redo_n_inv)

lemma run_inv: "cursorInRange s \<Longrightarrow> fst (run c h xs s) = [] \<and> cursorInRange (snd (run c h xs s))"
proof (induction xs arbitrary: s)
  case Nil
  then show ?case by simp
next
  case (Cons x xs)
  obtain e s1 where x: "exec c h x s = (e, s1)" by (cases "exec c h x s")
  with Cons.prems have "e = None" "cursorInRange s1" by (auto dest: exec_inv)
  with Cons.IH [of s1] x show ?case
    by (simp add: split_beta)
qed

subsection \<open>The memo table of tags and the loaded plugins\<close>

lemma pluginTag_keeps:
  "tags uri = Some t \<Longrightarrow> snd (pluginTag c u tags) uri = Some t"
  by (auto simp add: pluginTag_def Let_def split: option.splits)

lemma pluginTag_known: "tags uri = Some t \<Longrightarrow> pluginTag c uri tags = (t, tags)"
  by (simp add: pluginTag_def)

lemma pluginTag_stored: "snd (pluginTag c uri tags) uri = Some (fst (pluginTag c uri tags))"
  by (simp add: pluginTag_def Let_def split: option.splits)

lemma pluginTag_calls_keep:
  "tags uri = Some t \<Longrightarrow> foldl (\<lambda>m u. snd (pluginTag c u m)) tags uris uri = Some t"
  by (induction uris arbitrary: tags) (simp_all add: pluginTag_keeps)

lemma pluginTag_repeat:
  "fst (pluginTag c uri (foldl (\<lambda>m u. snd (pluginTag c u m)) (snd (pluginTag c uri tags)) uris))
     = fst (pluginTag c uri tags)"
proof -
  have "snd (pluginTag c uri tags) uri = Some (fst (pluginTag c uri tags))"
    by (rule pluginTag_stored)
  then have "foldl (\<lambda>m u. snd (pluginTag c u m)) (snd (pluginTag c uri tags)) uris uri
      = Some (fst (pluginTag c uri tags))"
    by (rule pluginTag_calls_keep)
  then show ?thesis
    by (simp add: pluginTag_known)
qed

lemma loadPlugin_first:
  "loadPlugin c newURL p (g, s) =
    (let tag = fst (pluginTag c (src p) (pluginTags g));
         g1 = g\<lparr>pluginTags := snd (pluginTag c (src p) (pluginTags g))\<rparr>;
         s1 = s\<lparr>loadedPlugins := (loadedPlugins s)(tag \<mapsto> p)\<rparr>
     in if loadedPlugins s tag \<noteq> None then (None, g1, s)
        else if tag \<in> customElements g then (None, g1, s1)
        else (case newURL (src p) of None \<Rightarrow> (Some TypeError, g1, s1)
              | Some url \<Rightarrow> (None, g1\<lparr>startedImports := startedImports g @ [(tag, url)]\<rparr>, s1)))"
  by (simp add: loadPlugin_def Let_def split: prod.splits option.splits)

lemma loadPlugin_loaded:
  assumes "pluginTags g (src p) = Some tag" and "loadedPlugins s tag \<noteq> None"
  shows "loadPlugin c newURL p (g, s) = (None, g, s)"
  using assms by (simp add: loadPlugin_first pluginTag_known Let_def)

lemma loadPlugin_after:
  assumes "loadPlugin c newURL p (g, s) = (e1, g1, s1)"
  shows "pluginTags g1 (src p) = Some (fst (pluginTag c (src p) (pluginTags g)))"
    and "loadedPlugins s1 (fst (pluginTag c (src p) (pluginTags g))) \<noteq> None"
    and "loadedPlugins s1 (fst (pluginTag c (src p) (pluginTags g)))
          = (case loadedPlugins s (fst (pluginTag c (src p) (pluginTags g))) of
               None \<Rightarrow> Some p | Some q \<Rightarrow> Some q)"
    and "dom (loadedPlugins s1) = insert (fst (pluginTag c (src p) (pluginTags g))) (dom (loadedPlugins s))"
    and "startedImports g1 = startedImports g @
           (if loadedPlugins s (fst (pluginTag c (src p) (pluginTags g))) = None
               \<and> fst (pluginTag c (src p) (pluginTags g)) \<notin> customElements g
            then (case newURL (src p) of None \<Rightarrow> []
                  | Some url \<Rightarrow> [(fst (pluginTag c (src p) (pluginTags g)), url)])
            else [])"
  using assms
  by (auto simp add: loadPlugin_first Let_def pluginTag_stored split: if_splits option.splits)

subsection \<open>Evaluation of concrete instances\<close>

lemmas evaluation = handleEditEventV2.simps handleEditEvent_def splice_js_def at_def
  squashUndo_def squashRedo_def sampleHandleEdit_def sampleSession_def initial_def Let_def
  updateVersion_def or_else_def truthy_def canUndo_def canRedo_def last_edit_def applyAll_def

section \<open>Boundaries of the history\<close>

text \<open>
  Claim C4. Calling \<open>undo()\<close> when \<open>editCount\<close> is 0, or \<open>redo()\<close> when
  \<open>editCount\<close> equals \<open>history.length\<close>, leaves the whole state as it was:
  \<open>editCount\<close>, the history, the document trees and \<open>docVersion\<close> (which is not
  incremented); no exception is raised. This holds for every count \<open>n\<close>, in
  particular for the default 1.
\<close>

theorem undo_redo_boundary_unchanged:
  "(editCount s = 0 \<longrightarrow> undo_n handleEdit n s = (None, s)) \<and>
   (editCount s = int (length (history s)) \<longrightarrow> redo_n handleEdit n s = (None, s))"
  by (simp add: undo_n_stop redo_n_stop canUndo_def canRedo_def last_edit_def)

theorem undo_redo_boundary_unchanged_witness:
  "editCount (sampleSession\<lparr>trees := 0, editCount := 0\<rparr>) = 0
   \<and> undo_n sampleHandleEdit 1 (sampleSession\<lparr>trees := 0, editCount := 0\<rparr>)
     = (None, sampleSession\<lparr>trees := 0, editCount := 0\<rparr>)
   \<and> editCount sampleSession = int (length (history sampleSession))
   \<and> redo_n sampleHandleEdit 1 sampleSession = (None, sampleSession)"
  using undo_redo_boundary_unchanged [of "sampleSession\<lparr>trees := 0, editCount := 0\<rparr>"
      sampleHandleEdit 1]
    undo_redo_boundary_unchanged [of sampleSession sampleHandleEdit 1]
  by (simp add: sampleSession_def initial_def)

section \<open>Squashing\<close>

text \<open>
  Claim C1. For every pair of edits \<open>A\<close> and \<open>B\<close>: appending \<open>A\<close> through
  \<open>handleEditEventV2\<close> without squash and then \<open>B\<close> with \<open>squash = true\<close>
  leaves, after the entries kept by the truncation, exactly one entry in place of the
  two. Its \<open>redo\<close> is the array of the edits of \<open>A\<close> followed by those of \<open>B\<close>;
  its \<open>undo\<close> is the array of the edits of the inverse of \<open>B\<close> followed by those
  of the inverse of \<open>A\<close>, the inverses being what \<open>handleEdit\<close> returned when
  \<open>A\<close> and then \<open>B\<close> were applied.
\<close>

theorem squash_merges_two_appends:
  assumes "sqA \<noteq> Some True"
  shows "let s1 = handleEditEventV2 handleEdit (EditDetailV2 A tA sqA) s;
             s2 = handleEditEventV2 handleEdit (EditDetailV2 B tB (Some True)) s1;
             kept = splice_js (history s) (editCount s);
             undoA = fst (handleEdit A (trees s));
             undoB = fst (handleEdit B (trees s1))
         in history s1 = kept @ [last (history s1)]
          \<and> history s2 = kept @
               [\<lparr>undo = Complex (subEdits undoB @ subEdits undoA),
                 redo = Complex (subEdits A @ subEdits B),
                 title = or_else tB (title (last (history s1)))\<rparr>]
          \<and> editCount s2 = int (length (history s2))"
proof -
  define s1 where "s1 = handleEditEventV2 handleEdit (EditDetailV2 A tA sqA) s"
  define kept where "kept = splice_js (history s) (editCount s)"
  have h1: "history s1 = kept @ [last (history s1)]"
    and u1: "undo (last (history s1)) = fst (handleEdit A (trees s))"
    and r1: "redo (last (history s1)) = A"
    using assms by (simp_all add: s1_def kept_def V2_plain)
  have c1: "editCount s1 = int (length (history s1))"
    unfolding s1_def by (rule V2_editCount)
  show ?thesis
    unfolding Let_def s1_def [symmetric] kept_def [symmetric]
    using h1 by (simp add: V2_squash_snoc [OF h1 c1] u1 r1)
qed

theorem squash_merges_two_appends_witness:
  "(None :: bool option) \<noteq> Some True
   \<and> history (handleEditEventV2 sampleHandleEdit
        (EditDetailV2 (Complex [Atomic 1, Atomic 2]) None (Some True))
        (handleEditEventV2 sampleHandleEdit (EditDetailV2 (Atomic 5) (Some ''move'') None)
          (sampleSession\<lparr>trees := 3, editCount := 1\<rparr>)))
     = [\<lparr>undo = Atomic (- 3), redo = Atomic 3, title = Some ''first''\<rparr>,
        \<lparr>undo = Complex [Atomic (- 2), Atomic (- 1), Atomic (- 5)],
         redo = Complex [Atomic 5, Atomic 1, Atomic 2], title = Some ''move''\<rparr>]"
  using squash_merges_two_appends [of None sampleHandleEdit "Atomic 5" "Some ''move''"
      "sampleSession\<lparr>trees := 3, editCount := 1\<rparr>" "Complex [Atomic 1, Atomic 2]" None]
  by (simp add: evaluation)

text \<open>
  Claim C6. Appending an edit through \<open>handleEditEventV2\<close> with the title "add X"
  to a history whose cursor is 0 (the initial one, for instance), then appending a
  second edit with \<open>squash = true\<close> and no title, leaves a history of exactly one
  entry, with title "add X", and \<open>editCount = 1\<close>. The entry is not the one the
  first append pushed: that one was popped and the entry left is the merge of the two
  edits, which carries the title forward; \<open>docVersion\<close> has gone up twice and both
  edits have been applied to the trees.
\<close>

theorem squash_keeps_title_add_X:
  assumes "editCount s = 0"
  shows "let s1 = handleEditEventV2 handleEdit (EditDetailV2 edit1 (Some ''add X'') sq1) s;
             s2 = handleEditEventV2 handleEdit (EditDetailV2 edit2 None (Some True)) s1;
             undo1 = fst (handleEdit edit1 (trees s));
             undo2 = fst (handleEdit edit2 (snd (handleEdit edit1 (trees s))))
         in length (history s2) = 1
          \<and> title (hd (history s2)) = Some ''add X''
          \<and> editCount s2 = 1
          \<and> history s1 = [\<lparr>undo = undo1, redo = edit1, title = Some ''add X''\<rparr>]
          \<and> s2 = s\<lparr>history :=
                      [\<lparr>undo = Complex (subEdits undo2 @ subEdits undo1),
                        redo = Complex (subEdits edit1 @ subEdits edit2),
                        title = Some ''add X''\<rparr>],
                    editCount := 1,
                    docVersion := docVersion s + 2,
                    trees := snd (handleEdit edit2 (snd (handleEdit edit1 (trees s))))\<rparr>"
proof -
  define s1 where "s1 = handleEditEventV2 handleEdit (EditDetailV2 edit1 (Some ''add X'') sq1) s"
  define e1 where
    "e1 = \<lparr>undo = fst (handleEdit edit1 (trees s)), redo = edit1, title = Some ''add X''\<rparr>"
  have k: "splice_js (history s) (editCount s) = []"
    using assms by (simp add: splice_js_zero)
  have t: "or_else (Some ''add X'') x = Some ''add X''" for x
    by (simp add: or_else_def truthy_def)
  have s1_eq: "s1 = s\<lparr>history := [e1], editCount := 1, docVersion := docVersion s + 1,
                      trees := snd (handleEdit edit1 (trees s))\<rparr>"
  proof (cases "sq1 = Some True")
    case True
    then show ?thesis
      by (simp add: s1_def e1_def V2_squash Let_def k t squashUndo_Nil squashRedo_Nil)
  next
    case False
    then show ?thesis
      by (simp add: s1_def e1_def V2_plain k t)
  qed
  have h1: "history s1 = [] @ [e1]"
    and c1: "editCount s1 = int (length (history s1))"
    by (simp_all add: s1_eq)
  have s2_eq: "handleEditEventV2 handleEdit (EditDetailV2 edit2 None (Some True)) s1 =
      s\<lparr>history :=
          [\<lparr>undo = Complex (subEdits (fst (handleEdit edit2 (snd (handleEdit edit1 (trees s)))))
                            @ subEdits (fst (handleEdit edit1 (trees s)))),
            redo = Complex (subEdits edit1 @ subEdits edit2),
            title = Some ''add X''\<rparr>],
        editCount := 1,
        docVersion := docVersion s + 2,
        trees := snd (handleEdit edit2 (snd (handleEdit edit1 (trees s))))\<rparr>"
    unfolding V2_squash_snoc [OF h1 c1]
    by (simp add: s1_eq e1_def or_else_def truthy_def)
  show ?thesis
    unfolding Let_def s1_def [symmetric] s2_eq
    by (simp add: s1_eq e1_def)
qed

theorem squash_keeps_title_add_X_witness:
  "editCount (initial 0 :: (int, int) openSCD) = 0
   \<and> history (handleEditEventV2 sampleHandleEdit (EditDetailV2 (Atomic 1) (Some ''add X'') None)
          (initial 0))
       = [\<lparr>undo = Atomic (- 1), redo = Atomic 1, title = Some ''add X''\<rparr>]
   \<and> handleEditEventV2 sampleHandleEdit (EditDetailV2 (Atomic 2) None (Some True))
        (handleEditEventV2 sampleHandleEdit (EditDetailV2 (Atomic 1) (Some ''add X'') None)
          (initial 0))
       = (initial 3)
           \<lparr>history := [\<lparr>undo = Complex [Atomic (- 2), Atomic (- 1)],
                         redo = Complex [Atomic 1, Atomic 2], title = Some ''add X''\<rparr>],
            editCount := 1, docVersion := 2\<rparr>"
  using squash_keeps_title_add_X [of "initial 0" sampleHandleEdit "Atomic 1" None "Atomic 2"]
  by (simp add: Let_def initial_def sampleHandleEdit_def)

text \<open>
  Claim C9. When \<open>handleEditEventV2\<close> is called without squash and with no title or
  the empty title, and the truncated history is not empty, the entry pushed has the
  title of the entry that was last before: the fallback is not tied to squashing.
\<close>

theorem title_fallback_without_squash:
  assumes "sq \<noteq> Some True" and "\<not> truthy t"
    and "splice_js (history s) (editCount s) \<noteq> []"
  shows "let kept = splice_js (history s) (editCount s);
             s' = handleEditEventV2 handleEdit (EditDetailV2 edit t sq) s
         in history s' = kept @ [last (history s')]
          \<and> title (last (history s')) = title (last kept)"
  using assms
  by (simp add: Let_def V2_plain at_last or_else_falsy)

theorem title_fallback_without_squash_witness:
  "Some False \<noteq> Some True \<and> \<not> truthy (Some [])
   \<and> splice_js (history (sampleSession\<lparr>trees := 3, editCount := 1\<rparr>))
        (editCount (sampleSession\<lparr>trees := 3, editCount := 1\<rparr>)) \<noteq> []
   \<and> history (handleEditEventV2 sampleHandleEdit (EditDetailV2 (Atomic 5) (Some []) (Some False))
        (sampleSession\<lparr>trees := 3, editCount := 1\<rparr>))
     = [\<lparr>undo = Atomic (- 3), redo = Atomic 3, title = Some ''first''\<rparr>,
        \<lparr>undo = Atomic (- 5), redo = Atomic 5, title = Some ''first''\<rparr>]"
  using title_fallback_without_squash [of "Some False" "Some []"
      "sampleSession\<lparr>trees := 3, editCount := 1\<rparr>" sampleHandleEdit "Atomic 5"]
  by (simp add: evaluation)

text \<open>
  Claim C10. When \<open>handleEditEventV2\<close> is called with \<open>squash = true\<close> and
  \<open>editCount = 0\<close>, so that the truncated history is empty, \<open>squashUndo\<close> and
  \<open>squashRedo\<close> return their argument, nothing is popped, and the history becomes
  the single entry made of the inverse that \<open>handleEdit\<close> returned and of the edit
  itself; \<open>editCount\<close> becomes 1.
\<close>

theorem squash_on_empty_history:
  assumes "editCount s = 0"
  shows "let kept = s\<lparr>history := splice_js (history s) (editCount s)\<rparr>;
             undoEdit = fst (handleEdit edit (trees s))
         in history kept = []
          \<and> squashUndo undoEdit kept = undoEdit
          \<and> squashRedo edit kept = edit
          \<and> handleEditEventV2 handleEdit (EditDetailV2 edit t (Some True)) s =
              s\<lparr>history := [\<lparr>undo = undoEdit, redo = edit, title = or_else t None\<rparr>],
                editCount := 1,
                docVersion := docVersion s + 1,
                trees := snd (handleEdit edit (trees s))\<rparr>"
  using assms
  by (simp add: Let_def V2_squash splice_js_zero squashUndo_Nil squashRedo_Nil at_def)

theorem squash_on_empty_history_witness:
  "editCount (sampleSession\<lparr>trees := 0, editCount := 0\<rparr>) = 0
   \<and> handleEditEventV2 sampleHandleEdit (EditDetailV2 (Atomic 5) None (Some True))
        (sampleSession\<lparr>trees := 0, editCount := 0\<rparr>)
     = sampleSession\<lparr>history := [\<lparr>undo = Atomic (- 5), redo = Atomic 5, title = None\<rparr>],
          editCount := 1, docVersion := 3, trees := 5\<rparr>"
  using squash_on_empty_history [of "sampleSession\<lparr>trees := 0, editCount := 0\<rparr>"
      sampleHandleEdit "Atomic 5" None]
  by (simp add: evaluation)

section \<open>The cursor and the steps of undo and redo\<close>

text \<open>
  Claim C2. Starting from the initial state (empty history, \<open>editCount = 0\<close>), after
  any finite sequence of calls of \<open>handleEditEvent\<close>, \<open>handleEditEventV2\<close>,
  \<open>undo(n)\<close> and \<open>redo(n)\<close> the cursor satisfies
  \<open>0 \<le> editCount \<le> history.length\<close>; and none of the calls raises an exception.
\<close>

theorem cursor_within_history:
  "fst (run convertEdit handleEdit calls (initial t)) = []
   \<and> 0 \<le> editCount (snd (run convertEdit handleEdit calls (initial t)))
   \<and> editCount (snd (run convertEdit handleEdit calls (initial t)))
       \<le> int (length (history (snd (run convertEdit handleEdit calls (initial t)))))"
proof -
  have "cursorInRange (initial t :: ('a, 'b) openSCD)"
    by (simp add: cursorInRange_def initial_def)
  from run_inv [OF this, of convertEdit handleEdit calls] show ?thesis
    by (simp add: cursorInRange_def)
qed

theorem cursor_within_history_witness:
  "fst (run id sampleHandleEdit
      [HandleEditEventV2 (EditDetailV2 (Atomic 1) None None), Undo 3, Redo 1,
       HandleEditEvent (Atomic 2), HandleEditEvent (Atomic 3), Undo 1] (initial 0)) = []
   \<and> editCount (snd (run id sampleHandleEdit
      [HandleEditEventV2 (EditDetailV2 (Atomic 1) None None), Undo 3, Redo 1,
       HandleEditEvent (Atomic 2), HandleEditEvent (Atomic 3), Undo 1] (initial 0))) = 2
   \<and> length (history (snd (run id sampleHandleEdit
      [HandleEditEventV2 (EditDetailV2 (Atomic 1) None None), Undo 3, Redo 1,
       HandleEditEvent (Atomic 2), HandleEditEvent (Atomic 3), Undo 1] (initial 0)))) = 3"
  using cursor_within_history [of id sampleHandleEdit
      "[HandleEditEventV2 (EditDetailV2 (Atomic 1) None None), Undo 3, Redo 1,
        HandleEditEvent (Atomic 2), HandleEditEvent (Atomic 3), Undo 1]" 0]
  by (simp add: evaluation undo_n.simps redo_n.simps)

text \<open>
  Claim C5. With the cursor within the history, \<open>undo(n)\<close> does nothing when
  \<open>editCount = 0\<close> or \<open>n < 1\<close>; otherwise it applies exactly
  \<open>min(n, editCount)\<close> stored undo edits, newest first, lowers \<open>editCount\<close> by
  that number and raises \<open>docVersion\<close> by one per step. \<open>redo(n)\<close> applies
  exactly \<open>min(n, history.length - editCount)\<close> stored redo edits in the order of
  the history, raising \<open>editCount\<close> and \<open>docVersion\<close> by one per step.
\<close>

theorem undo_redo_apply_min_steps:
  assumes "0 \<le> editCount s" and "editCount s \<le> int (length (history s))"
  shows "let k = nat (min n (editCount s));
             j = nat (min n (int (length (history s)) - editCount s));
             undone = map undo (take k (rev (take (nat (editCount s)) (history s))));
             redone = map redo (take j (drop (nat (editCount s)) (history s)))
         in (editCount s = 0 \<or> n < 1 \<longrightarrow> undo_n handleEdit n s = (None, s))
          \<and> length undone = k
          \<and> undo_n handleEdit n s =
              (None, s\<lparr>trees := applyAll handleEdit undone (trees s),
                       editCount := editCount s - int k,
                       docVersion := docVersion s + int k\<rparr>)
          \<and> length redone = j
          \<and> redo_n handleEdit n s =
              (None, s\<lparr>trees := applyAll handleEdit redone (trees s),
                       editCount := editCount s + int j,
                       docVersion := docVersion s + int j\<rparr>)"
proof -
  have inv: "cursorInRange s"
    using assms by (simp add: cursorInRange_def)
  have stop: "editCount s = 0 \<or> n < 1 \<longrightarrow> undo_n handleEdit n s = (None, s)"
    by (auto simp add: undo_n_stop canUndo_def last_edit_def)
  have lu: "length (take (nat (min n (editCount s))) (rev (take (nat (editCount s)) (history s))))
            = nat (min n (editCount s))"
    using assms by (auto simp add: min_def)
  have lr: "length (take (nat (min n (int (length (history s)) - editCount s)))
              (drop (nat (editCount s)) (history s)))
            = nat (min n (int (length (history s)) - editCount s))"
    using assms by (auto simp add: min_def)
  show ?thesis
    unfolding Let_def length_map lu lr
    using stop undo_n_closed [OF inv, of handleEdit n] redo_n_closed [OF inv, of handleEdit n]
    by simp
qed

theorem undo_redo_apply_min_steps_witness:
  "0 \<le> editCount sampleSession \<and> editCount sampleSession \<le> int (length (history sampleSession))
   \<and> undo_n sampleHandleEdit 5 sampleSession
       = (None, sampleSession\<lparr>trees := 0, editCount := 0, docVersion := 4\<rparr>)
   \<and> redo_n sampleHandleEdit 1 (sampleSession\<lparr>trees := 0, editCount := 0, docVersion := 4\<rparr>)
       = (None, sampleSession\<lparr>trees := 3, editCount := 1, docVersion := 5\<rparr>)"
  using undo_redo_apply_min_steps [of sampleSession 5 sampleHandleEdit]
    undo_redo_apply_min_steps [of "sampleSession\<lparr>trees := 0, editCount := 0, docVersion := 4\<rparr>"
      1 sampleHandleEdit]
  by (simp add: evaluation)

section \<open>Truncation on a new branch\<close>

text \<open>
  Claim C3. For every \<open>k \<ge> 1\<close>, when \<open>undo(k)\<close> has left
  \<open>editCount < history.length\<close>, an append through \<open>handleEditEvent\<close> or
  \<open>handleEditEventV2\<close> drops every entry at an index \<open>\<ge> editCount\<close> before it
  records the new entry (a squashing append then merges the new edit into the last entry
  kept), sets \<open>editCount\<close> to \<open>history.length\<close>, and a following \<open>redo\<close> does
  nothing.
\<close>

theorem append_after_undo_truncates:
  assumes "0 \<le> editCount s0" and "editCount s0 \<le> int (length (history s0))"
    and "1 \<le> k" and "undo_n handleEdit k s0 = (err, s)"
    and "editCount s < int (length (history s))"
  shows "let kept = take (nat (editCount s)) (history s);
             s1 = handleEditEvent convertEdit handleEdit e s;
             s2 = handleEditEventV2 handleEdit (EditDetailV2 edit t sq) s
         in err = None
          \<and> history s1 = kept @ [last (history s1)]
          \<and> editCount s1 = int (length (history s1))
          \<and> redo_n handleEdit n s1 = (None, s1)
          \<and> history s2 = (if sq = Some True then butlast kept else kept) @ [last (history s2)]
          \<and> editCount s2 = int (length (history s2))
          \<and> redo_n handleEdit n s2 = (None, s2)"
proof -
  have "cursorInRange s0"
    using assms(1,2) by (simp add: cursorInRange_def)
  from undo_n_inv [OF this assms(4)] have err: "err = None" and inv: "cursorInRange s"
    by simp_all
  have k: "splice_js (history s) (editCount s) = take (nat (editCount s)) (history s)"
    using inv by (simp add: cursorInRange_def splice_js_take)
  define s1 where "s1 = handleEditEvent convertEdit handleEdit e s"
  define s2 where "s2 = handleEditEventV2 handleEdit (EditDetailV2 edit t sq) s"
  have h1: "history s1 = take (nat (editCount s)) (history s) @ [last (history s1)]"
    by (simp add: s1_def V1_state k)
  have c1: "editCount s1 = int (length (history s1))"
    unfolding s1_def using inv by (rule V1_editCount)
  have h2: "history s2 = (if sq = Some True then butlast (take (nat (editCount s)) (history s))
                          else take (nat (editCount s)) (history s)) @ [last (history s2)]"
    by (cases "sq = Some True") (simp_all add: s2_def V2_squash V2_plain k Let_def)
  have c2: "editCount s2 = int (length (history s2))"
    unfolding s2_def by (rule V2_editCount)
  have r1: "redo_n handleEdit n s1 = (None, s1)"
    using c1 by (simp add: redo_n_stop canRedo_def)
  have r2: "redo_n handleEdit n s2 = (None, s2)"
    using c2 by (simp add: redo_n_stop canRedo_def)
  show ?thesis
    unfolding Let_def s1_def [symmetric] s2_def [symmetric]
    using err h1 c1 r1 h2 c2 r2 by blast
qed

theorem append_after_undo_truncates_witness:
  "0 \<le> editCount sampleSession \<and> editCount sampleSession \<le> int (length (history sampleSession))
   \<and> (1 :: int) \<le> 1
   \<and> undo_n sampleHandleEdit 1 sampleSession
       = (None, sampleSession\<lparr>trees := 3, editCount := 1, docVersion := 3\<rparr>)
   \<and> editCount (sampleSession\<lparr>trees := 3, editCount := 1, docVersion := 3\<rparr>)
       < int (length (history (sampleSession\<lparr>trees := 3, editCount := 1, docVersion := 3\<rparr>)))
   \<and> history (handleEditEvent id sampleHandleEdit (Atomic 9)
        (sampleSession\<lparr>trees := 3, editCount := 1, docVersion := 3\<rparr>))
       = [\<lparr>undo = Atomic (- 3), redo = Atomic 3, title = Some ''first''\<rparr>,
          \<lparr>undo = Atomic (- 9), redo = Atomic 9, title = None\<rparr>]
   \<and> redo_n sampleHandleEdit 1 (handleEditEvent id sampleHandleEdit (Atomic 9)
        (sampleSession\<lparr>trees := 3, editCount := 1, docVersion := 3\<rparr>))
       = (None, handleEditEvent id sampleHandleEdit (Atomic 9)
        (sampleSession\<lparr>trees := 3, editCount := 1, docVersion := 3\<rparr>))
   \<and> history (handleEditEventV2 sampleHandleEdit (EditDetailV2 (Atomic 9) None (Some True))
        (sampleSession\<lparr>trees := 3, editCount := 1, docVersion := 3\<rparr>))
       = [\<lparr>undo = Complex [Atomic (- 9), Atomic (- 3)], redo = Complex [Atomic 3, Atomic 9],
           title = Some ''first''\<rparr>]"
proof -
  have u: "undo_n sampleHandleEdit 1 sampleSession
       = (None, sampleSession\<lparr>trees := 3, editCount := 1, docVersion := 3\<rparr>)"
    by (subst undo_n.simps) (simp add: evaluation)
  have a: "0 \<le> editCount sampleSession" "editCount sampleSession \<le> int (length (history sampleSession))"
    by (simp_all add: sampleSession_def initial_def)
  have b: "editCount (sampleSession\<lparr>trees := 3, editCount := 1, docVersion := 3\<rparr>)
       < int (length (history (sampleSession\<lparr>trees := 3, editCount := 1, docVersion := 3\<rparr>)))"
    by (simp add: sampleSession_def initial_def)
  show ?thesis
    using append_after_undo_truncates [OF a _ u b, where convertEdit = id and e = "Atomic 9"
        and n = 1 and edit = "Atomic 9" and t = None and sq = "Some True"] a u b
    by (simp add: evaluation)
qed

section \<open>Document registry: the active document\<close>

text \<open>Opening a document under an ordinary name makes it the active document, also
  when the name is that of an inherited method. Opening one under \<open>__proto__\<close>
  creates no key: the document becomes the prototype of \<open>docs\<close>, and from then on a
  read of a name that is not a key is answered by the browser.\<close>

lemma doc_after_open:
  assumes "prototype (docs s) = ObjectPrototype" and "n \<noteq> ''__proto__''"
  shows "fst (handleOpenDoc inheritedSet n d s) = None"
    and "doc inheritedGet (snd (handleOpenDoc inheritedSet n d s)) = Inr (Document d)"
  using assms
  by (auto simp add: handleOpenDoc_def setProperty_def doc_def getProperty_def Let_def
      split: option.splits)

lemma doc_after_open_proto:
  assumes "prototype (docs s) = ObjectPrototype" and "ownKeys (docs s) ''__proto__'' = None"
  shows "docs (snd (handleOpenDoc inheritedSet ''__proto__'' d s))
           = (docs s)\<lparr>prototype := DocumentPrototype d\<rparr>"
    and "ownKeys (docs s) n = None \<Longrightarrow>
         doc inheritedGet ((snd (handleOpenDoc inheritedSet ''__proto__'' d s))\<lparr>docName := n\<rparr>)
           = inheritedGet d n"
  using assms
  by (simp_all add: handleOpenDoc_def setProperty_def doc_def getProperty_def Let_def)

text \<open>With the sample browser: after a document was opened under \<open>__proto__\<close>, the
  read for the name \<open>URL\<close> raises.\<close>

lemma doc_raises_after_open_proto:
  "doc sampleInheritedGet
     ((snd (handleOpenDoc sampleInheritedSet ''__proto__'' 1 (initial 0 :: (int, int) openSCD)))
        \<lparr>docName := ''URL''\<rparr>) = Inl TypeError"
  by (simp add: handleOpenDoc_def setProperty_def doc_def getProperty_def Let_def initial_def
      sampleInheritedGet_def)

text \<open>
  Claim C7, as amended. Whenever \<open>docName\<close> is a non-empty string that is not a key
  of \<open>docs\<close>, and \<open>docs\<close> has the prototype of the plain object it was created as,
  reading the accessor \<open>doc\<close> signals no NotFound condition and does not fail: it
  returns \<open>undefined\<close>, or, when \<open>docName\<close> is the name of a member that every
  plain object inherits (\<open>toString\<close>, \<open>constructor\<close>, ...), that member.
  The claim as stated, that the read fails, does not hold: see the instance after the
  theorem.
\<close>

theorem doc_unknown_name_plain_read:
  assumes "docName s \<noteq> []" and "ownKeys (docs s) (docName s) = None"
    and "prototype (docs s) = ObjectPrototype"
  shows "doc inheritedGet s =
           Inr (if docName s \<in> set objectPrototypeNames then Inherited (docName s)
                else Undefined)"
  using assms by (simp add: doc_def getProperty_def)

theorem doc_unknown_name_plain_read_witness:
  "docName ((initial 0 :: (int, int) openSCD)
       \<lparr>docs := \<lparr>ownKeys = [''A'' \<mapsto> 1], prototype = ObjectPrototype\<rparr>, docName := ''B''\<rparr>) \<noteq> []
   \<and> ownKeys (docs ((initial 0 :: (int, int) openSCD)
       \<lparr>docs := \<lparr>ownKeys = [''A'' \<mapsto> 1], prototype = ObjectPrototype\<rparr>, docName := ''B''\<rparr>)) ''B''
       = None
   \<and> prototype (docs ((initial 0 :: (int, int) openSCD)
       \<lparr>docs := \<lparr>ownKeys = [''A'' \<mapsto> 1], prototype = ObjectPrototype\<rparr>, docName := ''B''\<rparr>))
       = ObjectPrototype
   \<and> doc sampleInheritedGet ((initial 0 :: (int, int) openSCD)
       \<lparr>docs := \<lparr>ownKeys = [''A'' \<mapsto> 1], prototype = ObjectPrototype\<rparr>, docName := ''B''\<rparr>)
       = Inr Undefined
   \<and> doc sampleInheritedGet ((initial 0 :: (int, int) openSCD)
       \<lparr>docs := \<lparr>ownKeys = [''A'' \<mapsto> 1], prototype = ObjectPrototype\<rparr>,
         docName := ''toString''\<rparr>)
       = Inr (Inherited ''toString'')"
  using doc_unknown_name_plain_read [of "(initial 0 :: (int, int) openSCD)
       \<lparr>docs := \<lparr>ownKeys = [''A'' \<mapsto> 1], prototype = ObjectPrototype\<rparr>, docName := ''B''\<rparr>"
       sampleInheritedGet]
    doc_unknown_name_plain_read [of "(initial 0 :: (int, int) openSCD)
       \<lparr>docs := \<lparr>ownKeys = [''A'' \<mapsto> 1], prototype = ObjectPrototype\<rparr>,
         docName := ''toString''\<rparr>" sampleInheritedGet]
  by (simp add: initial_def objectPrototypeNames_def)

text \<open>With \<open>docName = "A"\<close> and no document opened, the name is set and is not a key,
  and the read is not a failure: it returns \<open>undefined\<close>.\<close>

theorem doc_unknown_name_counterexample:
  "docName ((initial 0 :: (int, int) openSCD)\<lparr>docName := ''A''\<rparr>) \<noteq> []
   \<and> ownKeys (docs ((initial 0 :: (int, int) openSCD)\<lparr>docName := ''A''\<rparr>))
        (docName ((initial 0 :: (int, int) openSCD)\<lparr>docName := ''A''\<rparr>)) = None
   \<and> \<not> isl (doc sampleInheritedGet ((initial 0 :: (int, int) openSCD)\<lparr>docName := ''A''\<rparr>))
   \<and> doc sampleInheritedGet ((initial 0 :: (int, int) openSCD)\<lparr>docName := ''A''\<rparr>)
       = Inr Undefined"
  by (simp add: doc_def getProperty_def initial_def objectPrototypeNames_def)

section \<open>Plugin registry: tags and loading\<close>

text \<open>
  Claim C8. For every \<open>src\<close> string, \<open>pluginTag(src)\<close> returns the same tag on
  every repeated call, whatever calls of \<open>pluginTag\<close> happened in between. Calling
  \<open>loadPlugin\<close> twice with plugins of the same \<open>src\<close> leaves exactly one entry for
  the tag in \<open>loadedPlugins\<close> (the one of the first call, or the one that was
  there), and the second call does nothing at all: it raises nothing, changes neither
  the element nor the tags, and starts no import; so the two calls start at most one
  import. Modules defined between the two calls (the registry \<open>ce\<close>) make no
  difference.
\<close>

theorem pluginTag_stable_loadPlugin_once:
  assumes "src p2 = src p1"
    and "loadPlugin cyrb64 newURL p1 (g, s) = (e1, g1, s1)"
    and "loadPlugin cyrb64 newURL p2 (g1\<lparr>customElements := ce\<rparr>, s1) = (e2, g2, s2)"
  shows "let tag = fst (pluginTag cyrb64 (src p1) (pluginTags g));
             later = foldl (\<lambda>m u. snd (pluginTag cyrb64 u m))
                       (snd (pluginTag cyrb64 uri tags)) uris
         in fst (pluginTag cyrb64 uri later) = fst (pluginTag cyrb64 uri tags)
          \<and> e2 = None \<and> g2 = g1\<lparr>customElements := ce\<rparr> \<and> s2 = s1
          \<and> loadedPlugins s2 tag =
              (case loadedPlugins s tag of None \<Rightarrow> Some p1 | Some q \<Rightarrow> Some q)
          \<and> dom (loadedPlugins s2) = insert tag (dom (loadedPlugins s))
          \<and> startedImports g2 = startedImports g @
              (if loadedPlugins s tag = None \<and> tag \<notin> customElements g
               then (case newURL (src p1) of None \<Rightarrow> [] | Some url \<Rightarrow> [(tag, url)])
               else [])
          \<and> length (startedImports g2) \<le> length (startedImports g) + 1"
proof -
  define tag where "tag = fst (pluginTag cyrb64 (src p1) (pluginTags g))"
  note a = loadPlugin_after [OF assms(2), folded tag_def]
  have "loadPlugin cyrb64 newURL p2 (g1\<lparr>customElements := ce\<rparr>, s1)
          = (None, g1\<lparr>customElements := ce\<rparr>, s1)"
    using a(1,2) assms(1) by (intro loadPlugin_loaded [where tag = tag]) simp_all
  with assms(3) have second: "e2 = None" "g2 = g1\<lparr>customElements := ce\<rparr>" "s2 = s1"
    by simp_all
  have i: "startedImports g2 = startedImports g1"
    using second by simp
  have l: "length (startedImports g1) \<le> length (startedImports g) + 1"
    unfolding a(5) by (simp split: option.splits)
  show ?thesis
    unfolding Let_def tag_def [symmetric] i
    using second a(3,4,5) l pluginTag_repeat [of cyrb64 uri tags uris]
    by simp
qed

theorem pluginTag_stable_loadPlugin_once_witness:
  "src (samplePlugin ''second'') = src (samplePlugin ''first'')
   \<and> loadPlugin id Some (samplePlugin ''first'') (initialGlobals, (initial 0 :: (int, int) openSCD))
       = (None,
          initialGlobals\<lparr>pluginTags := [''plugin.js'' \<mapsto> ''oscd-pplugin.js''],
                         startedImports := [(''oscd-pplugin.js'', ''plugin.js'')]\<rparr>,
          (initial 0)\<lparr>loadedPlugins := [''oscd-pplugin.js'' \<mapsto> samplePlugin ''first'']\<rparr>)
   \<and> loadPlugin id Some (samplePlugin ''second'')
        (initialGlobals\<lparr>pluginTags := [''plugin.js'' \<mapsto> ''oscd-pplugin.js''],
                         startedImports := [(''oscd-pplugin.js'', ''plugin.js'')],
                         customElements := {''oscd-pplugin.js''}\<rparr>,
         (initial 0 :: (int, int) openSCD)
           \<lparr>loadedPlugins := [''oscd-pplugin.js'' \<mapsto> samplePlugin ''first'']\<rparr>)
       = (None,
          initialGlobals\<lparr>pluginTags := [''plugin.js'' \<mapsto> ''oscd-pplugin.js''],
                         startedImports := [(''oscd-pplugin.js'', ''plugin.js'')],
                         customElements := {''oscd-pplugin.js''}\<rparr>,
          (initial 0)\<lparr>loadedPlugins := [''oscd-pplugin.js'' \<mapsto> samplePlugin ''first'']\<rparr>)
   \<and> fst (pluginTag id ''plugin.js''
        (snd (pluginTag id ''other.js'' (snd (pluginTag id ''plugin.js'' Map.empty)))))
       = ''oscd-pplugin.js''"
proof -
  have a: "src (samplePlugin ''second'') = src (samplePlugin ''first'')"
    by (simp add: samplePlugin_def)
  have b: "loadPlugin id Some (samplePlugin ''first'')
             (initialGlobals, (initial 0 :: (int, int) openSCD))
       = (None,
          initialGlobals\<lparr>pluginTags := [''plugin.js'' \<mapsto> ''oscd-pplugin.js''],
                         startedImports := [(''oscd-pplugin.js'', ''plugin.js'')]\<rparr>,
          (initial 0)\<lparr>loadedPlugins := [''oscd-pplugin.js'' \<mapsto> samplePlugin ''first'']\<rparr>)"
    by (simp add: loadPlugin_def pluginTag_def Let_def initialGlobals_def initial_def
        samplePlugin_def)
  have c: "loadPlugin id Some (samplePlugin ''second'')
        ((initialGlobals\<lparr>pluginTags := [''plugin.js'' \<mapsto> ''oscd-pplugin.js''],
                         startedImports := [(''oscd-pplugin.js'', ''plugin.js'')]\<rparr>)
           \<lparr>customElements := {''oscd-pplugin.js''}\<rparr>,
         (initial 0 :: (int, int) openSCD)
           \<lparr>loadedPlugins := [''oscd-pplugin.js'' \<mapsto> samplePlugin ''first'']\<rparr>)
       = (None,
          initialGlobals\<lparr>pluginTags := [''plugin.js'' \<mapsto> ''oscd-pplugin.js''],
                         startedImports := [(''oscd-pplugin.js'', ''plugin.js'')],
                         customElements := {''oscd-pplugin.js''}\<rparr>,
          (initial 0)\<lparr>loadedPlugins := [''oscd-pplugin.js'' \<mapsto> samplePlugin ''first'']\<rparr>)"
    by (simp add: loadPlugin_def pluginTag_def Let_def initialGlobals_def initial_def
        samplePlugin_def)
  show ?thesis
    using pluginTag_stable_loadPlugin_once [OF a b c, where uri = "''plugin.js''"
        and tags = Map.empty and uris = "[''other.js'']"] a b c
    by (simp add: Let_def pluginTag_def)
qed

end
